theory Spec2Isabelle
  imports Main "HOL-Library.Char_ord" "HOL-Library.List_Lexorder" "HOL-Library.Product_Lexorder"
begin

section \<open>The host storage engine, as far as the client drives it\<close>

text \<open>
  The client of \<^verbatim>\<open>src/src/indexed-db-client.ts\<close> sits on top of the browser's IndexedDB
  engine.  The engine is not part of the repository; this section fixes the part of its
  behaviour that the client's own code relies on, following the Indexed Database API.
  Values are kept small: a key is a number (modelled as an integer) or a string, numbers
  sort before strings; any other field value is represented by \<open>VBool\<close> and is not a
  valid key.  A record is a flat object, a finite map from field names to values, and a
  key path is the name of one field.  Requests fail only for the reasons the API gives
  (here: constraint violations of \<^verbatim>\<open>put\<close>); failures of the storage medium are outside
  the model.  Operations are run one after the other, each to its completion, as a caller
  does who awaits every call.
\<close>

datatype key = KNum int | KStr string

instantiation key :: linorder
begin

fun less_eq_key :: "key \<Rightarrow> key \<Rightarrow> bool" where
  "less_eq_key (KNum a) (KNum b) = (a \<le> b)"
| "less_eq_key (KNum a) (KStr t) = True"
| "less_eq_key (KStr s) (KNum b) = False"
| "less_eq_key (KStr s) (KStr t) = (s \<le> t)"

definition less_key :: "key \<Rightarrow> key \<Rightarrow> bool" where
  "less_key a b = (a \<le> b \<and> \<not> b \<le> a)"

instance
proof
  fix x y z :: key
  show "(x < y) = (x \<le> y \<and> \<not> y \<le> x)"
    by (simp add: less_key_def)
  show "x \<le> x"
    by (cases x) simp_all
  show "x \<le> y \<Longrightarrow> y \<le> z \<Longrightarrow> x \<le> z"
    by (cases x; cases y; cases z) auto
  show "x \<le> y \<Longrightarrow> y \<le> x \<Longrightarrow> x = y"
    by (cases x; cases y) auto
  show "x \<le> y \<or> y \<le> x"
    by (cases x; cases y) auto
qed

end

datatype val = VKey key | VBool bool

type_synonym idb_record = "string \<rightharpoonup> val"

text \<open>\<^verbatim>\<open>IDBKeyRange\<close>: optional bounds, each open or closed.\<close>

record key_range =
  lower :: "key option"
  upper :: "key option"
  lowerOpen :: bool
  upperOpen :: bool

definition rangeIncludes :: "key_range \<Rightarrow> key \<Rightarrow> bool" where
  "rangeIncludes r k =
     ((case lower r of None \<Rightarrow> True | Some l \<Rightarrow> if lowerOpen r then l < k else l \<le> k) \<and>
      (case upper r of None \<Rightarrow> True | Some u \<Rightarrow> if upperOpen r then k < u else k \<le> u))"

definition only :: "key \<Rightarrow> key_range" where
  "only k = \<lparr>lower = Some k, upper = Some k, lowerOpen = False, upperOpen = False\<rparr>"

definition unbounded :: key_range where
  "unbounded = \<lparr>lower = None, upper = None, lowerOpen = False, upperOpen = False\<rparr>"

text \<open>
  The \<^verbatim>\<open>value\<close> of a selection descriptor
  (\<^verbatim>\<open>value?: IDBKeyRange | number | string\<close>), and the engine's conversion of a
  query argument to a key range: absent means everything, a key means exactly that key.
\<close>

datatype query = Scalar key | KeyRange key_range

definition toRange :: "query option \<Rightarrow> key_range" where
  "toRange q = (case q of None \<Rightarrow> unbounded | Some (Scalar k) \<Rightarrow> only k | Some (KeyRange r) \<Rightarrow> r)"

text \<open>
  \<^verbatim>\<open>IDBKeyRange.only(value)\<close> accepts a valid key only: it throws a
  \<^verbatim>\<open>DataError\<close> for \<^verbatim>\<open>undefined\<close> and for a range object.
\<close>

datatype error =
    ConfigNotExist | DbNotInit | StorageAlreadyExists | NoStorageSelected
  | NotFoundError | DataError | ConstraintError | TypeError | InvalidStateError
  | OpenFailed | CouldNotDelete | CouldNotDeleteBlocked

definition IDBKeyRange_only :: "query option \<Rightarrow> error + key_range" where
  "IDBKeyRange_only q = (case q of Some (Scalar k) \<Rightarrow> Inr (only k) | _ \<Rightarrow> Inl DataError)"

text \<open>
  An object store holds its records as pairs of primary key and value, its key path,
  its key generator and its indexes.  An index is a key path and a uniqueness flag;
  its entries are derived from the records, as the engine keeps them in step.
\<close>

record idb_index =
  index_keyPath :: string
  index_unique :: bool

record object_store =
  keyPath :: string
  autoIncrement :: bool
  keyGenerator :: int
  records :: "(key \<times> idb_record) list"
  indexes :: "(string \<times> idb_index) list"

record idb_database =
  objectStores :: "string \<rightharpoonup> object_store"
  upgrading :: bool

text \<open>Evaluating a key path on a record gives a key only when the field holds a valid key.\<close>

definition extractKey :: "string \<Rightarrow> idb_record \<Rightarrow> key option" where
  "extractKey path r = (case r path of Some (VKey k) \<Rightarrow> Some k | _ \<Rightarrow> None)"

text \<open>
  Records of a store in ascending primary-key order; entries of an index (index key,
  primary key, record) in ascending index-key order, equal index keys in ascending
  primary-key order (pairs are compared lexicographically).
\<close>

definition storeEntries :: "object_store \<Rightarrow> (key \<times> idb_record) list" where
  "storeEntries s = sort_key fst (records s)"

fun entriesOf :: "string \<Rightarrow> (key \<times> idb_record) list \<Rightarrow> (key \<times> key \<times> idb_record) list" where
  "entriesOf path [] = []"
| "entriesOf path ((pk, r) # rest) =
     (case extractKey path r of
        None \<Rightarrow> entriesOf path rest
      | Some ik \<Rightarrow> (ik, pk, r) # entriesOf path rest)"

definition indexEntries :: "object_store \<Rightarrow> idb_index \<Rightarrow> (key \<times> key \<times> idb_record) list" where
  "indexEntries s i = sort_key (\<lambda>(ik, pk, r). (ik, pk)) (entriesOf (index_keyPath i) (records s))"

text \<open>
  What \<^verbatim>\<open>select\<close> reads from is an object store or one of its indexes
  (\<^verbatim>\<open>IDBObjectStore | IDBIndex\<close>); both offer \<^verbatim>\<open>getAll\<close> and
  \<^verbatim>\<open>openCursor\<close> over their own key space.
\<close>

datatype source = Store object_store | Index object_store idb_index

definition sourceEntries :: "source \<Rightarrow> (key \<times> idb_record) list" where
  "sourceEntries src =
     (case src of
        Store s \<Rightarrow> storeEntries s
      | Index s i \<Rightarrow> map (\<lambda>(ik, pk, r). (ik, r)) (indexEntries s i))"

definition inRange :: "query option \<Rightarrow> source \<Rightarrow> idb_record list" where
  "inRange q src = map snd (filter (\<lambda>(k, r). rangeIncludes (toRange q) k) (sourceEntries src))"

text \<open>
  A request fires exactly one of two events.  An engine call that throws instead of
  handing out a request is the \<open>Inl\<close> of a sum around it.
\<close>

datatype 'a request = OnError error | OnSuccess 'a

text \<open>
  \<^verbatim>\<open>getAll(query, count)\<close>: \<^verbatim>\<open>count\<close> is an unsigned long enforced in range
  (a \<^verbatim>\<open>TypeError\<close> otherwise); absent or zero means no limit.
\<close>

definition getAll :: "source \<Rightarrow> query option \<Rightarrow> int option \<Rightarrow> error + idb_record list request" where
  "getAll src q cnt =
     (case cnt of
        None \<Rightarrow> Inr (OnSuccess (inRange q src))
      | Some n \<Rightarrow>
          if n < 0 \<or> 4294967295 < n then Inl TypeError
          else if n = 0 then Inr (OnSuccess (inRange q src))
          else Inr (OnSuccess (take (nat n) (inRange q src))))"

text \<open>
  \<^verbatim>\<open>openCursor(query, direction)\<close> as \<^verbatim>\<open>select\<close> uses it, in a read-only transaction
  that changes nothing under the cursor: the values the cursor's request yields on its
  successive success events (after each \<^verbatim>\<open>continue()\<close>) until it yields
  \<^verbatim>\<open>null\<close>.  Direction \<^verbatim>\<open>prev\<close> walks the same entries backwards.
\<close>

datatype direction = Next | Prev

definition openCursor :: "source \<Rightarrow> query option \<Rightarrow> direction \<Rightarrow> idb_record list" where
  "openCursor src q dir = (case dir of Next \<Rightarrow> inRange q src | Prev \<Rightarrow> rev (inRange q src))"

text \<open>
  A cursor over an index restricted to a range, as \<^verbatim>\<open>delete\<close> opens it.  Its
  position is the pair of index key and primary key of the entry it is at (none before
  the first step).  Opening it and every \<^verbatim>\<open>continue()\<close> move it to the first entry of
  the range, in the index as it is now, that lies after the position; the request then
  yields the cursor, or \<^verbatim>\<open>null\<close> when there is no such entry.
\<close>

definition afterPosition :: "(key \<times> key) option \<Rightarrow> key \<times> key \<Rightarrow> bool" where
  "afterPosition pos e = (case pos of None \<Rightarrow> True | Some p \<Rightarrow> p < e)"

definition cursorAhead ::
  "object_store \<Rightarrow> idb_index \<Rightarrow> key_range \<Rightarrow> (key \<times> key) option \<Rightarrow> (key \<times> key \<times> idb_record) list" where
  "cursorAhead s i rng pos =
     filter (\<lambda>(ik, pk, r). rangeIncludes rng ik \<and> afterPosition pos (ik, pk)) (indexEntries s i)"

definition continue ::
  "object_store \<Rightarrow> idb_index \<Rightarrow> key_range \<Rightarrow> (key \<times> key) option \<Rightarrow> (key \<times> key) option" where
  "continue s i rng pos =
     (case cursorAhead s i rng pos of [] \<Rightarrow> None | (ik, pk, r) # rest \<Rightarrow> Some (ik, pk))"

definition deleteRange :: "object_store \<Rightarrow> key_range \<Rightarrow> object_store" where
  "deleteRange s rng = s\<lparr>records := filter (\<lambda>(pk, r). \<not> rangeIncludes rng pk) (records s)\<rparr>"

text \<open>\<^verbatim>\<open>objectStore.index(name)\<close> throws \<^verbatim>\<open>NotFoundError\<close> for an unknown name.\<close>

definition index :: "object_store \<Rightarrow> string \<Rightarrow> error + idb_index" where
  "index s n = (case map_of (indexes s) n of None \<Rightarrow> Inl NotFoundError | Some i \<Rightarrow> Inr i)"

text \<open>
  \<^verbatim>\<open>put(value)\<close> on a store with an in-line key.  A key-path field that is present but
  not a valid key throws \<^verbatim>\<open>DataError\<close>; so does a missing key without a key
  generator.  A present key is used as it is (and moves the generator past it when it is
  a number); a missing one is generated and written into the stored value.  The request
  fails with \<^verbatim>\<open>ConstraintError\<close> when the generator is used up, or when a unique
  index already holds the record's index key under another primary key; the transaction
  is then rolled back, so a failed request leaves the store as it was.
\<close>

definition uniqueViolation :: "object_store \<Rightarrow> key \<Rightarrow> idb_record \<Rightarrow> bool" where
  "uniqueViolation s k r =
     list_ex (\<lambda>(n, i). index_unique i \<and>
        (case extractKey (index_keyPath i) r of
           None \<Rightarrow> False
         | Some ik \<Rightarrow> list_ex (\<lambda>(pk, r'). pk \<noteq> k \<and> extractKey (index_keyPath i) r' = Some ik) (records s)))
       (indexes s)"

definition storeRecord :: "object_store \<Rightarrow> key \<Rightarrow> idb_record \<Rightarrow> (object_store \<times> key) request" where
  "storeRecord s k r =
     (if uniqueViolation s k r then OnError ConstraintError
      else OnSuccess (s\<lparr>records := filter (\<lambda>(pk, r'). pk \<noteq> k) (records s) @ [(k, r)]\<rparr>, k))"

definition bumpGenerator :: "object_store \<Rightarrow> key \<Rightarrow> object_store" where
  "bumpGenerator s k =
     (case k of
        KNum n \<Rightarrow>
          if autoIncrement s \<and> keyGenerator s \<le> min n 9007199254740992
          then s\<lparr>keyGenerator := min n 9007199254740992 + 1\<rparr> else s
      | KStr t \<Rightarrow> s)"

definition put :: "object_store \<Rightarrow> idb_record \<Rightarrow> error + (object_store \<times> key) request" where
  "put s r =
     (case r (keyPath s) of
        Some (VBool b) \<Rightarrow> Inl DataError
      | Some (VKey k) \<Rightarrow> Inr (storeRecord (bumpGenerator s k) k r)
      | None \<Rightarrow>
          if \<not> autoIncrement s then Inl DataError
          else if 9007199254740992 < keyGenerator s then Inr (OnError ConstraintError)
          else Inr (storeRecord (s\<lparr>keyGenerator := keyGenerator s + 1\<rparr>) (KNum (keyGenerator s))
                 (r(keyPath s \<mapsto> VKey (KNum (keyGenerator s))))))"

text \<open>
  Schema changes.  \<^verbatim>\<open>createObjectStore\<close> needs a running upgrade transaction
  (\<^verbatim>\<open>InvalidStateError\<close> otherwise) and a fresh name (\<^verbatim>\<open>ConstraintError\<close>
  otherwise); its key generator starts at 1.  \<^verbatim>\<open>createIndex\<close> needs a name that is
  fresh within the store (\<^verbatim>\<open>ConstraintError\<close> otherwise).
\<close>

definition contains :: "idb_database \<Rightarrow> string \<Rightarrow> bool" where
  "contains d n = (objectStores d n \<noteq> None)"

definition createObjectStore ::
  "idb_database \<Rightarrow> string \<Rightarrow> string \<Rightarrow> bool \<Rightarrow> error + idb_database \<times> object_store" where
  "createObjectStore d n kp ai =
     (if \<not> upgrading d then Inl InvalidStateError
      else if contains d n then Inl ConstraintError
      else
        (let s = \<lparr>keyPath = kp, autoIncrement = ai, keyGenerator = 1, records = [], indexes = []\<rparr>
         in Inr (d\<lparr>objectStores := (objectStores d)(n \<mapsto> s)\<rparr>, s)))"

definition createIndex :: "object_store \<Rightarrow> string \<Rightarrow> string \<Rightarrow> bool \<Rightarrow> error + object_store" where
  "createIndex s n kp u =
     (if map_of (indexes s) n \<noteq> None then Inl ConstraintError
      else Inr (s\<lparr>indexes := indexes s @ [(n, \<lparr>index_keyPath = kp, index_unique = u\<rparr>)]\<rparr>))"

section \<open>The client\<close>

text \<open>
  \<^verbatim>\<open>StorageIndex\<close>, \<^verbatim>\<open>IDBConfig\<close> and \<^verbatim>\<open>SelectParams\<close> of the type declarations,
  with optional fields as options.  Storage and index names are strings.
\<close>

record storage_index =
  index_si :: string
  key_si :: string
  unique_si :: "bool option"

record idb_config =
  dbName :: string
  dbVersion :: "nat option"
  storageNames :: "string list"
  storeNameToIndexes :: "string \<rightharpoonup> storage_index list"

datatype order = Asc | Desc

record select_params =
  key :: "string option"
  value_sp :: "query option"
  count :: "int option"
  orderBy :: "order option"

text \<open>
  The fields of \<^verbatim>\<open>class IndexedDbClient\<close>.  The connection \<^verbatim>\<open>db\<close> is modelled by
  the database seen through it.
\<close>

record client =
  db :: "idb_database option"
  storageName :: "string option"
  config :: "idb_config option"
  isInited :: bool

definition configure :: "client \<Rightarrow> idb_config \<Rightarrow> client" where
  "configure c cfg = c\<lparr>config := Some cfg\<rparr>"

definition from_storage :: "client \<Rightarrow> string \<Rightarrow> client" where
  "from_storage c n = c\<lparr>storageName := Some n\<rparr>"

definition clearStorageName :: "client \<Rightarrow> client" where
  "clearStorageName c = c\<lparr>storageName := None\<rparr>"

text \<open>
  \<^verbatim>\<open>getStorage\<close>: the two guards of the source, then \<^verbatim>\<open>db.transaction(name, mode)\<close>,
  which throws while an upgrade transaction runs and for an unknown store.  An empty
  storage name is falsy, so it counts as none selected.  The store comes back with the
  name it was found under.
\<close>

definition getStorage :: "client \<Rightarrow> error + string \<times> object_store" where
  "getStorage c =
     (case db c of
        None \<Rightarrow> Inl DbNotInit
      | Some d \<Rightarrow>
          (case storageName c of
             None \<Rightarrow> Inl NoStorageSelected
           | Some n \<Rightarrow>
               if n = [] then Inl NoStorageSelected
               else if upgrading d then Inl InvalidStateError
               else (case objectStores d n of None \<Rightarrow> Inl NotFoundError | Some s \<Rightarrow> Inr (n, s))))"

text \<open>
  The engine carries a request out against the connection: a successful write request
  leaves its store in the database, a failed one leaves the database as it was.
\<close>

definition writeStore :: "client \<Rightarrow> string \<Rightarrow> object_store \<Rightarrow> client" where
  "writeStore c n s =
     c\<lparr>db := map_option (\<lambda>d. d\<lparr>objectStores := (objectStores d)(n \<mapsto> s)\<rparr>) (db c)\<rparr>"

definition carryOut :: "client \<Rightarrow> string \<Rightarrow> (object_store \<times> 'a) request \<Rightarrow> client \<times> 'a request" where
  "carryOut c n request =
     (case request of
        OnError e \<Rightarrow> (c, OnError e)
      | OnSuccess (s, result) \<Rightarrow> (writeStore c n s, OnSuccess result))"

text \<open>
  \<^verbatim>\<open>promisifyRequest\<close>.  The hooks change the client; \<open>truthy\<close> is JavaScript's
  truthiness at the result type.
\<close>

record 'a promisify_config =
  defaultValue :: "'a option"
  onSuccess :: "(client \<Rightarrow> client) option"
  onError :: "(client \<Rightarrow> client) option"

definition promisifyRequest ::
  "client \<Rightarrow> 'a request \<Rightarrow> 'a promisify_config \<Rightarrow> ('a \<Rightarrow> bool) \<Rightarrow> client \<times> (error + 'a)" where
  "promisifyRequest c request cfg truthy =
     (case request of
        OnSuccess result \<Rightarrow>
          (let c' = (case onSuccess cfg of None \<Rightarrow> c | Some hook \<Rightarrow> hook c)
           in case defaultValue cfg of
                None \<Rightarrow> (c', Inr result)
              | Some dv \<Rightarrow> if \<not> truthy result \<and> truthy dv then (c', Inr dv) else (c', Inr result))
      | OnError e \<Rightarrow>
          (case onError cfg of None \<Rightarrow> (c, Inl e) | Some hook \<Rightarrow> (hook c, Inl e)))"

definition truthyKey :: "key \<Rightarrow> bool" where
  "truthyKey k = (case k of KNum n \<Rightarrow> n \<noteq> 0 | KStr t \<Rightarrow> t \<noteq> [])"

definition truthyCount :: "int option \<Rightarrow> bool" where
  "truthyCount cnt = (case cnt of None \<Rightarrow> False | Some n \<Rightarrow> n \<noteq> 0)"

definition truthyName :: "string option \<Rightarrow> bool" where
  "truthyName k = (case k of None \<Rightarrow> False | Some n \<Rightarrow> n \<noteq> [])"

definition truthyQuery :: "query option \<Rightarrow> bool" where
  "truthyQuery q = (case q of None \<Rightarrow> False | Some (Scalar k) \<Rightarrow> truthyKey k | Some (KeyRange r) \<Rightarrow> True)"

text \<open>
  The descending walk of \<^verbatim>\<open>select\<close>: the success handler of the cursor request, run
  on the values the cursor yields.  \<^verbatim>\<open>isNeedStep\<close> is
  \<^verbatim>\<open>count && step ? step - count : true\<close>, read as a condition.
\<close>

definition isNeedStep :: "int option \<Rightarrow> int \<Rightarrow> bool" where
  "isNeedStep cnt step =
     (if truthyCount cnt \<and> step \<noteq> 0 then (case cnt of None \<Rightarrow> True | Some n \<Rightarrow> step - n \<noteq> 0) else True)"

fun cursorWalk :: "int option \<Rightarrow> idb_record list \<Rightarrow> int \<Rightarrow> idb_record list \<Rightarrow> idb_record list" where
  "cursorWalk cnt [] step values = values"
| "cursorWalk cnt (result # rest) step values =
     (if isNeedStep cnt step then cursorWalk cnt rest (step + 1) (values @ [result]) else values)"

definition select :: "client \<Rightarrow> select_params option \<Rightarrow> client \<times> (error + idb_record list)" where
  "select c params =
     (let cfg = \<lparr>defaultValue = Some [], onSuccess = Some clearStorageName, onError = Some clearStorageName\<rparr>;
          k = Option.bind params key;
          v = Option.bind params value_sp;
          cnt = Option.bind params count;
          ord = Option.bind params orderBy;
          isStorage = (params = None \<or> k = Some ''id'' \<or> (truthyCount cnt \<or> ord \<noteq> None));
          storage =
            (case getStorage c of
               Inl e \<Rightarrow> Inl e
             | Inr (n, s) \<Rightarrow>
                 if isStorage then Inr (Store s)
                 else (case index s (case k of None \<Rightarrow> [] | Some n' \<Rightarrow> n') of
                         Inl e \<Rightarrow> Inl e
                       | Inr i \<Rightarrow> Inr (Index s i)))
      in case storage of
           Inl e \<Rightarrow> (c, Inl e)
         | Inr src \<Rightarrow>
             if ord \<noteq> Some Desc then
               (case getAll src v cnt of
                  Inl e \<Rightarrow> (c, Inl e)
                | Inr request \<Rightarrow> promisifyRequest c request cfg (\<lambda>result. True))
             else (clearStorageName c, Inr (cursorWalk cnt (openCursor src v Prev) 0 [])))"

definition insert_record :: "client \<Rightarrow> idb_record \<Rightarrow> client \<times> (error + key)" where
  "insert_record c element =
     (case getStorage c of
        Inl e \<Rightarrow> (c, Inl e)
      | Inr (n, s) \<Rightarrow>
          (case put s element of
             Inl e \<Rightarrow> (c, Inl e)
           | Inr request \<Rightarrow>
               (let (c', request') = carryOut c n request
                in promisifyRequest c' request'
                     \<lparr>defaultValue = Some (KNum (- 1)), onSuccess = Some clearStorageName,
                      onError = Some clearStorageName\<rparr> truthyKey)))"

text \<open>
  \<^verbatim>\<open>update\<close> awaits the request object itself, which is no promise: the function goes
  on at once, clears the selection and resolves, whatever event the request fires.
\<close>

definition update :: "client \<Rightarrow> idb_record \<Rightarrow> client \<times> (error + unit)" where
  "update c element =
     (case getStorage c of
        Inl e \<Rightarrow> (c, Inl e)
      | Inr (n, s) \<Rightarrow>
          (case put s element of
             Inl e \<Rightarrow> (c, Inl e)
           | Inr request \<Rightarrow> (clearStorageName (fst (carryOut c n request)), Inr ())))"

text \<open>
  The index walk of \<^verbatim>\<open>delete\<close>: the success handler of the cursor request.  While the
  request yields a cursor, the record under it is deleted and the cursor advanced; when
  it yields \<^verbatim>\<open>null\<close> the walk is over.  The walk ends because every step leaves fewer
  entries ahead of the cursor.
\<close>

lemma rangeIncludes_only [simp]: "rangeIncludes (only k) k' = (k' = k)"
  by (auto simp: rangeIncludes_def only_def)

lemma entriesOf_filter:
  "entriesOf path (filter (\<lambda>(pk', r). P pk') xs) = filter (\<lambda>(ik', pk', r). P pk') (entriesOf path xs)"
  by (induction path xs rule: entriesOf.induct) (auto split: option.splits)

lemma indexEntries_deleteRange:
  "indexEntries (deleteRange s (only pk)) i = filter (\<lambda>(ik', pk', r). pk' \<noteq> pk) (indexEntries s i)"
  by (simp add: indexEntries_def deleteRange_def filter_sort entriesOf_filter)

lemma length_filter_filter_le: "length (filter Q (filter R xs)) \<le> length (filter Q xs)"
  by (induction xs) auto

lemma length_filter_lt:
  "x \<in> set xs \<Longrightarrow> P x \<Longrightarrow> \<not> Q x \<Longrightarrow> (\<And>y. Q y \<Longrightarrow> P y) \<Longrightarrow>
   length (filter Q xs) < length (filter P xs)"
proof (induction xs)
  case Nil
  then show ?case by simp
next
  case (Cons a xs)
  have le: "length (filter Q xs) \<le> length (filter P xs)"
    using Cons.prems(4) by (induction xs) auto
  show ?case
  proof (cases "a = x")
    case True
    with Cons.prems le show ?thesis by auto
  next
    case False
    with Cons show ?thesis by auto
  qed
qed

lemma continue_Some_ahead:
  "continue s i rng pos = Some (ik, pk) \<Longrightarrow> \<exists>r rest. cursorAhead s i rng pos = (ik, pk, r) # rest"
  by (auto simp: continue_def split: list.splits)

lemma fewer_ahead:
  assumes "continue s i rng pos = Some (ik, pk)"
  shows "length (cursorAhead (deleteRange s (only pk)) i rng (Some (ik, pk)))
       < length (cursorAhead s i rng pos)"
proof -
  from assms obtain r rest where ah: "cursorAhead s i rng pos = (ik, pk, r) # rest"
    using continue_Some_ahead by blast
  let ?P = "\<lambda>(ik', pk', r'). rangeIncludes rng ik' \<and> afterPosition pos (ik', pk')"
  let ?Q = "\<lambda>(ik', pk', r'). rangeIncludes rng ik' \<and> afterPosition (Some (ik, pk)) (ik', pk')"
  have "(ik, pk, r) \<in> set (filter ?P (indexEntries s i))"
    using ah by (simp add: cursorAhead_def)
  then have 1: "(ik, pk, r) \<in> set (indexEntries s i)" and 2: "?P (ik, pk, r)"
    by auto
  have 3: "\<not> ?Q (ik, pk, r)"
    by (simp add: afterPosition_def)
  have 4: "\<And>y. ?Q y \<Longrightarrow> ?P y"
    using 2 by (auto simp: afterPosition_def split: option.splits)
  have "length (filter ?Q (filter (\<lambda>(ik', pk', r). pk' \<noteq> pk) (indexEntries s i)))
      \<le> length (filter ?Q (indexEntries s i))"
    by (rule length_filter_filter_le)
  also have "\<dots> < length (filter ?P (indexEntries s i))"
    using length_filter_lt[of "(ik, pk, r)" "indexEntries s i" ?P ?Q] 1 2 3 4 by blast
  finally show ?thesis
    by (simp add: cursorAhead_def indexEntries_deleteRange)
qed

function deleteWalk :: "object_store \<Rightarrow> idb_index \<Rightarrow> key_range \<Rightarrow> (key \<times> key) option \<Rightarrow> object_store" where
  "deleteWalk s i rng pos =
     (case continue s i rng pos of
        None \<Rightarrow> s
      | Some (ik, pk) \<Rightarrow> deleteWalk (deleteRange s (only pk)) i rng (Some (ik, pk)))"
  by pat_completeness auto
termination
  by (relation "measure (\<lambda>(s, i, rng, pos). length (cursorAhead s i rng pos))")
     (auto simp: fewer_ahead)

declare deleteWalk.simps [simp del]

definition delete :: "client \<Rightarrow> select_params \<Rightarrow> client \<times> (error + unit)" where
  "delete c params =
     (case getStorage c of
        Inl e \<Rightarrow> (c, Inl e)
      | Inr (n, storage) \<Rightarrow>
          if truthyName (key params) \<and> key params \<noteq> Some ''id'' then
            (case index storage (case key params of None \<Rightarrow> [] | Some n' \<Rightarrow> n') of
               Inl e \<Rightarrow> (c, Inl e)
             | Inr idx \<Rightarrow>
                 (case IDBKeyRange_only (value_sp params) of
                    Inl e \<Rightarrow> (c, Inl e)
                  | Inr rng \<Rightarrow>
                      (clearStorageName (clearStorageName (writeStore c n (deleteWalk storage idx rng None))),
                       Inr ())))
          else if truthyQuery (value_sp params) then
            (clearStorageName (writeStore c n (deleteRange storage (toRange (value_sp params)))), Inr ())
          else (clearStorageName c, Inr ()))"

text \<open>
  \<^verbatim>\<open>createStorage\<close>.  The indexes come from \<^verbatim>\<open>storeNameToIndexes[storageName] || []\<close>;
  \<^verbatim>\<open>unique\<close> defaults to false.  When \<^verbatim>\<open>createIndex\<close> throws, the store and the
  indexes made so far stay in the database.
\<close>

fun createIndexes :: "object_store \<Rightarrow> storage_index list \<Rightarrow> object_store \<times> (error + unit)" where
  "createIndexes store [] = (store, Inr ())"
| "createIndexes store (i # rest) =
     (case createIndex store (index_si i) (key_si i) (case unique_si i of None \<Rightarrow> False | Some u \<Rightarrow> u) of
        Inl e \<Rightarrow> (store, Inl e)
      | Inr store' \<Rightarrow> createIndexes store' rest)"

definition declaredIndexes :: "client \<Rightarrow> string \<Rightarrow> storage_index list" where
  "declaredIndexes c n =
     (case config c of
        None \<Rightarrow> []
      | Some cfg \<Rightarrow> (case storeNameToIndexes cfg n of None \<Rightarrow> [] | Some is \<Rightarrow> is))"

definition createStorage :: "client \<Rightarrow> string \<Rightarrow> client \<times> (error + unit)" where
  "createStorage c n =
     (case db c of
        None \<Rightarrow> (c, Inl DbNotInit)
      | Some d \<Rightarrow>
          if contains d n then (c, Inl StorageAlreadyExists)
          else
            (case createObjectStore d n ''id'' True of
               Inl e \<Rightarrow> (c, Inl e)
             | Inr (d', store) \<Rightarrow>
                 (let (store', r) = createIndexes store (declaredIndexes c n)
                  in (c\<lparr>db := Some (d'\<lparr>objectStores := (objectStores d')(n \<mapsto> store')\<rparr>)\<rparr>, r))))"

text \<open>
  \<^verbatim>\<open>init\<close>.  \<^verbatim>\<open>indexedDB.open\<close> throws a \<^verbatim>\<open>TypeError\<close> for version 0, which rejects the
  promise.  What it answers otherwise is the engine's: an error event, a success event on
  a database that needs no upgrade, or an upgrade event followed by a success event; the
  database comes with the event.  The upgrade transaction runs while the upgrade handler
  does and is over when the success event arrives.  The promise settles with the first
  \<^verbatim>\<open>resolve\<close> or \<^verbatim>\<open>reject\<close>; later handlers still run, so the success handler marks the
  client initialised also after the upgrade handler has rejected.
\<close>

datatype open_outcome = OpenError | OpenSuccess idb_database | OpenUpgradeNeeded idb_database

fun createMissing :: "client \<Rightarrow> string list \<Rightarrow> client \<times> (error + unit)" where
  "createMissing c [] = (c, Inr ())"
| "createMissing c (n # rest) =
     (case db c of
        None \<Rightarrow> createMissing c rest
      | Some d \<Rightarrow>
          if \<not> contains d n then
            (case createStorage c n of
               (c', Inl e) \<Rightarrow> (c', Inl e)
             | (c', Inr u) \<Rightarrow> createMissing c' rest)
          else createMissing c rest)"

definition onupgradeneeded :: "client \<Rightarrow> idb_config \<Rightarrow> idb_database \<Rightarrow> client \<times> (error + unit)" where
  "onupgradeneeded c cfg d =
     (case createMissing (c\<lparr>db := Some (d\<lparr>upgrading := True\<rparr>)\<rparr>) (storageNames cfg) of
        (c', Inl e) \<Rightarrow> (c', Inl e)
      | (c', Inr u) \<Rightarrow> (c'\<lparr>isInited := True\<rparr>, Inr ()))"

definition onsuccess :: "client \<Rightarrow> client" where
  "onsuccess c = c\<lparr>db := map_option (\<lambda>d. d\<lparr>upgrading := False\<rparr>) (db c), isInited := True\<rparr>"

definition init :: "client \<Rightarrow> open_outcome \<Rightarrow> client \<times> (error + unit)" where
  "init c outcome =
     (case config c of
        None \<Rightarrow> (c, Inl ConfigNotExist)
      | Some cfg \<Rightarrow>
          if dbVersion cfg = Some 0 then (c, Inl TypeError)
          else
            (case outcome of
               OpenError \<Rightarrow> (c, Inl OpenFailed)
             | OpenSuccess d \<Rightarrow> (onsuccess (c\<lparr>db := Some d\<rparr>), Inr ())
             | OpenUpgradeNeeded d \<Rightarrow>
                 (let (c', r) = onupgradeneeded c cfg d in (onsuccess c', r))))"

text \<open>
  \<^verbatim>\<open>deleteDb\<close>.  The events the engine fires at the delete request are its own affair
  (a blocked event may be followed by a success event once the other connections are
  closed); the handlers run on each, and the promise keeps its first settlement.  With no
  event the promise stays pending, which is \<open>None\<close>.
\<close>

datatype delete_event = DeleteSuccess | DeleteError | DeleteBlocked

definition settle :: "(error + unit) option \<Rightarrow> error + unit \<Rightarrow> (error + unit) option" where
  "settle promise r = (case promise of None \<Rightarrow> Some r | Some r' \<Rightarrow> Some r')"

fun deleteHandlers :: "delete_event list \<Rightarrow> client \<times> (error + unit) option \<Rightarrow> client \<times> (error + unit) option" where
  "deleteHandlers [] (c, promise) = (c, promise)"
| "deleteHandlers (DeleteSuccess # rest) (c, promise) =
     deleteHandlers rest (c\<lparr>isInited := False\<rparr>, settle promise (Inr ()))"
| "deleteHandlers (DeleteError # rest) (c, promise) =
     deleteHandlers rest (c, settle promise (Inl CouldNotDelete))"
| "deleteHandlers (DeleteBlocked # rest) (c, promise) =
     deleteHandlers rest (c, settle promise (Inl CouldNotDeleteBlocked))"

definition deleteDb :: "client \<Rightarrow> delete_event list \<Rightarrow> client \<times> (error + unit) option" where
  "deleteDb c events =
     (case config c of
        None \<Rightarrow> (c, Some (Inl ConfigNotExist))
      | Some cfg \<Rightarrow> deleteHandlers events (c, None))"

text \<open>The constructor: every field starts empty; a configuration may be handed over.\<close>

definition IndexedDbClient :: "idb_config option \<Rightarrow> client" where
  "IndexedDbClient cfg = \<lparr>db = None, storageName = None, config = cfg, isInited = False\<rparr>"

section \<open>The example of the repository\<close>

text \<open>
  The configuration of \<^verbatim>\<open>example.constants.ts\<close>: one storage \<^verbatim>\<open>tasks\<close> with two
  non-unique indexes.  \<open>exampleClient\<close> is the client after \<^verbatim>\<open>init\<close> on a database that
  did not exist before; \<open>threeTasks\<close> is that client after three tasks named A, B and A
  have been inserted.
\<close>

definition indexedDbConfig :: idb_config where
  "indexedDbConfig =
     \<lparr>dbName = ''exampleIndexedDbClientDb'', dbVersion = Some 1, storageNames = [''tasks''],
      storeNameToIndexes =
        [''tasks'' \<mapsto>
           [\<lparr>index_si = ''tasksName'', key_si = ''name'', unique_si = None\<rparr>,
            \<lparr>index_si = ''tasksCreatedAt'', key_si = ''createdAt'', unique_si = None\<rparr>]]\<rparr>"

definition freshDatabase :: idb_database where
  "freshDatabase = \<lparr>objectStores = Map.empty, upgrading = False\<rparr>"

definition exampleClient :: client where
  "exampleClient = fst (init (IndexedDbClient (Some indexedDbConfig)) (OpenUpgradeNeeded freshDatabase))"

definition taskData :: "string \<Rightarrow> idb_record" where
  "taskData nm = [''name'' \<mapsto> VKey (KStr nm), ''isDone'' \<mapsto> VBool False]"

definition insertTask :: "client \<Rightarrow> string \<Rightarrow> client" where
  "insertTask c nm = fst (insert_record (from_storage c ''tasks'') (taskData nm))"

definition threeTasks :: client where
  "threeTasks = insertTask (insertTask (insertTask exampleClient ''A'') ''B'') ''A''"

definition tasksIndexes :: "(string \<times> idb_index) list" where
  "tasksIndexes =
     [(''tasksName'', \<lparr>index_keyPath = ''name'', index_unique = False\<rparr>),
      (''tasksCreatedAt'', \<lparr>index_keyPath = ''createdAt'', index_unique = False\<rparr>)]"

definition storedTask :: "string \<Rightarrow> int \<Rightarrow> idb_record" where
  "storedTask nm i = (taskData nm)(''id'' \<mapsto> VKey (KNum i))"

definition tasksStore :: "int \<Rightarrow> (key \<times> idb_record) list \<Rightarrow> object_store" where
  "tasksStore gen recs =
     \<lparr>keyPath = ''id'', autoIncrement = True, keyGenerator = gen, records = recs, indexes = tasksIndexes\<rparr>"

definition tasksDatabase :: "int \<Rightarrow> (key \<times> idb_record) list \<Rightarrow> idb_database" where
  "tasksDatabase gen recs = \<lparr>objectStores = [''tasks'' \<mapsto> tasksStore gen recs], upgrading = False\<rparr>"

definition tasksClient :: "int \<Rightarrow> (key \<times> idb_record) list \<Rightarrow> client" where
  "tasksClient gen recs =
     \<lparr>db = Some (tasksDatabase gen recs), storageName = None, config = Some indexedDbConfig,
      isInited = True\<rparr>"

text \<open>A store whose index on the name is unique, holding one record, and a second configuration.\<close>

definition uniqueNames :: client where
  "uniqueNames =
     \<lparr>db = Some \<lparr>objectStores =
            [''tasks'' \<mapsto> \<lparr>keyPath = ''id'', autoIncrement = True, keyGenerator = 2,
                           records = [(KNum 1, storedTask ''A'' 1)],
                           indexes = [(''tasksName'', \<lparr>index_keyPath = ''name'', index_unique = True\<rparr>)]\<rparr>],
          upgrading = False\<rparr>,
      storageName = None, config = None, isInited = True\<rparr>"

definition notesConfig :: idb_config where
  "notesConfig =
     \<lparr>dbName = ''exampleIndexedDbClientDb'', dbVersion = Some 2, storageNames = [''tasks'', ''notes''],
      storeNameToIndexes =
        [''tasks'' \<mapsto> [\<lparr>index_si = ''tasksName'', key_si = ''name'', unique_si = Some True\<rparr>],
         ''notes'' \<mapsto> [\<lparr>index_si = ''notesTitle'', key_si = ''title'', unique_si = Some True\<rparr>,
                      \<lparr>index_si = ''notesTag'', key_si = ''tag'', unique_si = None\<rparr>]]\<rparr>"

text \<open>
  What the upgrade phase is expected to make of a storage that did not exist: an empty
  store keyed by an auto-incrementing \<^verbatim>\<open>id\<close>, with one index per declaration, unique
  only where the declaration says so.
\<close>

definition createdStore :: "storage_index list \<Rightarrow> object_store" where
  "createdStore declared =
     \<lparr>keyPath = ''id'', autoIncrement = True, keyGenerator = 1, records = [],
      indexes = map (\<lambda>i. (index_si i, \<lparr>index_keyPath = key_si i, index_unique = (unique_si i = Some True)\<rparr>)) declared\<rparr>"

text \<open>
  A record is ahead of an index cursor when its index key lies in the cursor's range and
  its entry comes after the cursor's position.
\<close>

definition ahead :: "idb_index \<Rightarrow> key_range \<Rightarrow> (key \<times> key) option \<Rightarrow> key \<times> idb_record \<Rightarrow> bool" where
  "ahead i rng pos = (\<lambda>(pk, r).
     case extractKey (index_keyPath i) r of
       None \<Rightarrow> False
     | Some ik \<Rightarrow> rangeIncludes rng ik \<and> afterPosition pos (ik, pk))"

section \<open>Auxiliary facts\<close>

subsection \<open>The example states\<close>

lemma exampleClient_eq: "exampleClient = tasksClient 1 []"
  by (simp add: exampleClient_def init_def IndexedDbClient_def indexedDbConfig_def freshDatabase_def
      onupgradeneeded_def createStorage_def contains_def createObjectStore_def declaredIndexes_def
      createIndex_def onsuccess_def tasksClient_def tasksDatabase_def tasksStore_def tasksIndexes_def
      Let_def)

lemma less_key_simps [simp]:
  "KNum a < KNum b \<longleftrightarrow> a < b"
  "KNum a < KStr t \<longleftrightarrow> True"
  "KStr s < KNum b \<longleftrightarrow> False"
  "KStr s < KStr t \<longleftrightarrow> s < t"
  by (auto simp: less_key_def)

lemma getStorage_tasksClient:
  "getStorage (from_storage (tasksClient g recs) ''tasks'') =
     Inr (''tasks'', tasksStore g recs)"
  by (simp add: getStorage_def from_storage_def tasksClient_def tasksDatabase_def)

lemma clear_from_tasksClient:
  "clearStorageName (from_storage (tasksClient g recs) n) = tasksClient g recs"
  by (simp add: clearStorageName_def from_storage_def tasksClient_def)

lemma insert_tasksClient:
  "1 \<le> g \<Longrightarrow> g \<le> 9007199254740992 \<Longrightarrow>
   insert_record (from_storage (tasksClient g recs) ''tasks'') (taskData nm) =
     (tasksClient (g + 1) (filter (\<lambda>(pk, r). pk \<noteq> KNum g) recs @ [(KNum g, storedTask nm g)]),
      Inr (KNum g))"
  unfolding insert_record_def getStorage_tasksClient
  by (simp add: put_def taskData_def storeRecord_def uniqueViolation_def tasksIndexes_def carryOut_def
      promisifyRequest_def truthyKey_def writeStore_def clearStorageName_def from_storage_def
      tasksClient_def tasksDatabase_def tasksStore_def storedTask_def Let_def)

lemma threeTasks_eq:
  "threeTasks =
     tasksClient 4 [(KNum 1, storedTask ''A'' 1), (KNum 2, storedTask ''B'' 2), (KNum 3, storedTask ''A'' 3)]"
  by (simp add: threeTasks_def insertTask_def exampleClient_eq insert_tasksClient)

lemma select_all_threeTasks:
  "select (from_storage threeTasks ''tasks'') None =
     (threeTasks, Inr [storedTask ''A'' 1, storedTask ''B'' 2, storedTask ''A'' 3])"
  unfolding threeTasks_eq select_def getStorage_tasksClient
  by (simp add: Let_def getAll_def inRange_def sourceEntries_def storeEntries_def toRange_def
      unbounded_def rangeIncludes_def promisifyRequest_def clear_from_tasksClient tasksStore_def)

lemma select_name_A_threeTasks:
  "select (from_storage threeTasks ''tasks'')
     (Some \<lparr>key = Some ''tasksName'', value_sp = Some (Scalar (KStr ''A'')), count = None, orderBy = None\<rparr>) =
     (threeTasks, Inr [storedTask ''A'' 1, storedTask ''A'' 3])"
  unfolding threeTasks_eq select_def getStorage_tasksClient
  by (simp add: Let_def getAll_def inRange_def sourceEntries_def indexEntries_def toRange_def
      rangeIncludes_def promisifyRequest_def clear_from_tasksClient index_def tasksIndexes_def
      truthyCount_def extractKey_def storedTask_def taskData_def only_def tasksStore_def)

lemma select_by_name_threeTasks:
  "select (from_storage threeTasks ''tasks'')
     (Some \<lparr>key = Some ''tasksName'', value_sp = None, count = None, orderBy = None\<rparr>) =
     (threeTasks, Inr [storedTask ''A'' 1, storedTask ''A'' 3, storedTask ''B'' 2])"
  unfolding threeTasks_eq select_def getStorage_tasksClient
  by (simp add: Let_def getAll_def inRange_def sourceEntries_def indexEntries_def toRange_def
      unbounded_def rangeIncludes_def promisifyRequest_def clear_from_tasksClient index_def
      tasksIndexes_def truthyCount_def extractKey_def storedTask_def taskData_def tasksStore_def)

subsection \<open>Thrown errors and the request bridge\<close>

lemma getStorage_throws:
  "getStorage c = Inl e \<Longrightarrow> e \<in> {DbNotInit, NoStorageSelected, InvalidStateError, NotFoundError}"
  by (auto simp: getStorage_def split: option.splits if_splits)

lemma put_throws: "put s element = Inl e \<Longrightarrow> e = DataError"
  by (auto simp: put_def split: option.splits val.splits if_splits)

lemma promisify_clears:
  "promisifyRequest c request
     \<lparr>defaultValue = dv, onSuccess = Some clearStorageName, onError = Some clearStorageName\<rparr> t = (c', r)
   \<Longrightarrow> storageName c' = None"
  by (auto simp: promisifyRequest_def clearStorageName_def Let_def
      split: request.splits option.splits if_splits)

subsection \<open>The handlers of the delete request\<close>

lemma deleteHandlers_settled:
  "snd (deleteHandlers events (c, Some r)) = Some r"
  by (induction events "(c, Some r)" arbitrary: c rule: deleteHandlers.induct) (simp_all add: settle_def)

lemma deleteHandlers_no_success:
  "DeleteSuccess \<notin> set events \<Longrightarrow> fst (deleteHandlers events (c, p)) = c"
  by (induction events "(c, p)" arbitrary: c p rule: deleteHandlers.induct) simp_all

lemma deleteHandlers_success:
  "DeleteSuccess \<in> set events \<Longrightarrow> fst (deleteHandlers events (c, p)) = c\<lparr>isInited := False\<rparr>"
proof (induction events "(c, p)" arbitrary: c p rule: deleteHandlers.induct)
  case (2 rest c promise)
  show ?case
  proof (cases "DeleteSuccess \<in> set rest")
    case True
    with 2 show ?thesis by simp
  next
    case False
    then show ?thesis by (simp add: deleteHandlers_no_success)
  qed
qed simp_all

subsection \<open>Reading back what was written\<close>

lemma sort_key_filter_single:
  "filter (\<lambda>(k', r). k' = k) (sort_key fst (filter (\<lambda>(pk, r'). pk \<noteq> k) xs @ [(k, r)])) = [(k, r)]"
proof -
  have "filter (\<lambda>(k', r). k' = k) (filter (\<lambda>(pk, r'). pk \<noteq> k) xs) = []"
    by (induction xs) auto
  then show ?thesis
    by (simp add: filter_sort)
qed

subsection \<open>Creating storages\<close>

lemma createIndexes_distinct:
  "distinct (map index_si declared) \<Longrightarrow> set (map index_si declared) \<inter> fst ` set (indexes s) = {} \<Longrightarrow>
   createIndexes s declared =
     (s\<lparr>indexes := indexes s @
          map (\<lambda>i. (index_si i, \<lparr>index_keyPath = key_si i, index_unique = (unique_si i = Some True)\<rparr>)) declared\<rparr>,
      Inr ())"
proof (induction declared arbitrary: s)
  case Nil
  then show ?case by simp
next
  case (Cons i rest)
  from Cons.prems(2) have fresh: "map_of (indexes s) (index_si i) = None"
    by (auto simp: map_of_eq_None_iff)
  let ?s' = "s\<lparr>indexes := indexes s @ [(index_si i, \<lparr>index_keyPath = key_si i, index_unique = (unique_si i = Some True)\<rparr>)]\<rparr>"
  have step: "createIndex s (index_si i) (key_si i) (case unique_si i of None \<Rightarrow> False | Some u \<Rightarrow> u) = Inr ?s'"
    using fresh by (auto simp: createIndex_def split: option.splits)
  have "set (map index_si rest) \<inter> fst ` set (indexes ?s') = {}"
    using Cons.prems by auto
  with Cons.IH[of ?s'] Cons.prems(1) have "createIndexes ?s' rest =
     (?s'\<lparr>indexes := indexes ?s' @
          map (\<lambda>i. (index_si i, \<lparr>index_keyPath = key_si i, index_unique = (unique_si i = Some True)\<rparr>)) rest\<rparr>,
      Inr ())"
    by simp
  with step show ?case by simp
qed

lemma createStorage_fresh:
  assumes "db c = Some d" and "upgrading d" and "\<not> contains d n"
    and "distinct (map index_si (declaredIndexes c n))"
  shows "createStorage c n =
     (c\<lparr>db := Some (d\<lparr>objectStores := (objectStores d)(n \<mapsto> createdStore (declaredIndexes c n))\<rparr>)\<rparr>, Inr ())"
  using assms createIndexes_distinct[of "declaredIndexes c n"
      "\<lparr>keyPath = ''id'', autoIncrement = True, keyGenerator = 1, records = [], indexes = []\<rparr>"]
  by (simp add: createStorage_def createObjectStore_def Let_def createdStore_def)

lemma createMissing_all:
  assumes "db c = Some d" and "upgrading d"
    and "\<forall>n\<in>set ns. distinct (map index_si (declaredIndexes c n))"
  shows "createMissing c ns =
     (c\<lparr>db := Some (d\<lparr>objectStores :=
          (\<lambda>n. if n \<in> set ns \<and> objectStores d n = None then Some (createdStore (declaredIndexes c n))
               else objectStores d n)\<rparr>)\<rparr>, Inr ())"
  using assms
proof (induction ns arbitrary: c d)
  case Nil
  then show ?case by simp
next
  case (Cons n rest)
  show ?case
  proof (cases "contains d n")
    case True
    then have "createMissing c (n # rest) = createMissing c rest"
      using Cons.prems(1) by simp
    moreover have "(\<lambda>m. if m \<in> set (n # rest) \<and> objectStores d m = None then Some (createdStore (declaredIndexes c m)) else objectStores d m)
        = (\<lambda>m. if m \<in> set rest \<and> objectStores d m = None then Some (createdStore (declaredIndexes c m)) else objectStores d m)"
      using True by (auto simp: contains_def fun_eq_iff)
    ultimately show ?thesis
      using Cons.IH[of c d] Cons.prems by simp
  next
    case False
    let ?d' = "d\<lparr>objectStores := (objectStores d)(n \<mapsto> createdStore (declaredIndexes c n))\<rparr>"
    let ?c' = "c\<lparr>db := Some ?d'\<rparr>"
    have cs: "createStorage c n = (?c', Inr ())"
      using createStorage_fresh[OF Cons.prems(1,2) False] Cons.prems(3) by simp
    have decl: "\<And>m. declaredIndexes ?c' m = declaredIndexes c m"
      by (simp add: declaredIndexes_def)
    have "createMissing ?c' rest =
       (?c'\<lparr>db := Some (?d'\<lparr>objectStores :=
          (\<lambda>m. if m \<in> set rest \<and> objectStores ?d' m = None then Some (createdStore (declaredIndexes ?c' m))
               else objectStores ?d' m)\<rparr>)\<rparr>, Inr ())"
      using Cons.prems by (intro Cons.IH) (simp_all add: decl)
    moreover have "(\<lambda>m. if m \<in> set rest \<and> objectStores ?d' m = None then Some (createdStore (declaredIndexes ?c' m))
               else objectStores ?d' m)
       = (\<lambda>m. if m \<in> set (n # rest) \<and> objectStores d m = None then Some (createdStore (declaredIndexes c m)) else objectStores d m)"
      using False by (auto simp: contains_def decl fun_eq_iff)
    ultimately show ?thesis
      using cs False Cons.prems(1) by simp
  qed
qed

subsection \<open>The index walk\<close>

lemma set_entriesOf:
  "(ik, pk, r) \<in> set (entriesOf path xs) \<longleftrightarrow> (pk, r) \<in> set xs \<and> extractKey path r = Some ik"
  by (induction path xs rule: entriesOf.induct) (auto split: option.splits)

lemma set_indexEntries:
  "(ik, pk, r) \<in> set (indexEntries s i) \<longleftrightarrow> (pk, r) \<in> set (records s) \<and> extractKey (index_keyPath i) r = Some ik"
  by (simp add: indexEntries_def set_entriesOf)

lemma set_cursorAhead:
  "(ik, pk, r) \<in> set (cursorAhead s i rng pos) \<longleftrightarrow>
     (pk, r) \<in> set (records s) \<and> extractKey (index_keyPath i) r = Some ik \<and>
     rangeIncludes rng ik \<and> afterPosition pos (ik, pk)"
  by (auto simp: cursorAhead_def set_indexEntries)

lemma sorted_cursorAhead:
  "sorted (map (\<lambda>(ik, pk, r). (ik, pk)) (cursorAhead s i rng pos))"
  unfolding cursorAhead_def indexEntries_def
  by (rule sorted_filter) simp

lemma cursorAhead_head_least:
  assumes "cursorAhead s i rng pos = (ik, pk, r) # rest"
    and "(ik', pk', r') \<in> set (cursorAhead s i rng pos)"
  shows "(ik, pk) \<le> (ik', pk')"
proof -
  have "sorted (map (\<lambda>(ik, pk, r). (ik, pk)) ((ik, pk, r) # rest))"
    using sorted_cursorAhead[of s i rng pos] assms(1) by simp
  then have "\<forall>e\<in>set rest. (ik, pk) \<le> (\<lambda>(ik, pk, r). (ik, pk)) e"
    by simp
  with assms show ?thesis by auto
qed

lemma ahead_iff:
  "(pk, r) \<in> set (records s) \<Longrightarrow>
   ahead i rng pos (pk, r) \<longleftrightarrow> (\<exists>ik. (ik, pk, r) \<in> set (cursorAhead s i rng pos))"
  by (auto simp: ahead_def set_cursorAhead split: option.splits)

lemma deleteWalk_records:
  "distinct (map fst (records s)) \<Longrightarrow>
   deleteWalk s i rng pos = s\<lparr>records := filter (\<lambda>e. \<not> ahead i rng pos e) (records s)\<rparr>"
proof (induction s i rng pos rule: deleteWalk.induct)
  case (1 s i rng pos)
  show ?case
  proof (cases "continue s i rng pos")
    case None
    then have "cursorAhead s i rng pos = []"
      by (auto simp: continue_def split: list.splits)
    then have "\<forall>e\<in>set (records s). \<not> ahead i rng pos e"
      using ahead_iff[of _ _ s i rng pos] by auto
    then have "filter (\<lambda>e. \<not> ahead i rng pos e) (records s) = records s"
      by (simp add: filter_id_conv)
    moreover have "deleteWalk s i rng pos = s"
      using None by (subst deleteWalk.simps) simp
    ultimately show ?thesis by simp
  next
    case (Some p)
    obtain ik pk where p: "p = (ik, pk)" by (cases p)
    from Some p obtain r0 rest where ah: "cursorAhead s i rng pos = (ik, pk, r0) # rest"
      using continue_Some_ahead by blast
    then have "(ik, pk, r0) \<in> set (cursorAhead s i rng pos)" by simp
    then have r0: "(pk, r0) \<in> set (records s)" "extractKey (index_keyPath i) r0 = Some ik"
      "rangeIncludes rng ik" "afterPosition pos (ik, pk)"
      by (simp_all add: set_cursorAhead)
    let ?s' = "deleteRange s (only pk)"
    have rec': "records ?s' = filter (\<lambda>(pk', r). pk' \<noteq> pk) (records s)"
      by (simp add: deleteRange_def)
    have "distinct (map fst (records ?s'))"
      using "1.prems" by (simp add: rec' distinct_map_filter)
    with "1.IH"[OF Some[unfolded p] refl] have IH:
      "deleteWalk ?s' i rng (Some (ik, pk)) = ?s'\<lparr>records := filter (\<lambda>e. \<not> ahead i rng (Some (ik, pk)) e) (records ?s')\<rparr>"
      by simp
    have step: "deleteWalk s i rng pos = deleteWalk ?s' i rng (Some (ik, pk))"
      using Some p by (subst deleteWalk.simps) simp
    have same: "(pk' \<noteq> pk \<and> \<not> ahead i rng (Some (ik, pk)) (pk', r)) \<longleftrightarrow> \<not> ahead i rng pos (pk', r)"
      if mem: "(pk', r) \<in> set (records s)" for pk' r
    proof (cases "extractKey (index_keyPath i) r")
      case None
      have "pk' \<noteq> pk"
      proof
        assume "pk' = pk"
        with mem r0(1) "1.prems" have "r = r0"
          by (meson eq_key_imp_eq_value)
        with None r0(2) show False by simp
      qed
      with None show ?thesis by (simp add: ahead_def)
    next
      case (Some ik')
      show ?thesis
      proof (cases "rangeIncludes rng ik' \<and> afterPosition pos (ik', pk')")
        case True
        then have "(ik', pk', r) \<in> set (cursorAhead s i rng pos)"
          using mem Some by (simp add: set_cursorAhead)
        then have le: "(ik, pk) \<le> (ik', pk')"
          using cursorAhead_head_least[OF ah] by blast
        have "pk' = pk \<or> (ik, pk) < (ik', pk')"
          using le by (auto simp: less_le)
        then show ?thesis
          using True Some by (auto simp: ahead_def afterPosition_def)
      next
        case False
        have "pk' \<noteq> pk"
        proof
          assume "pk' = pk"
          with mem r0(1) "1.prems" have "r = r0"
            by (meson eq_key_imp_eq_value)
          with Some r0 False \<open>pk' = pk\<close> show False by simp
        qed
        moreover have "\<not> (rangeIncludes rng ik' \<and> (ik, pk) < (ik', pk'))"
          using False r0(4) by (auto simp: afterPosition_def split: option.splits)
        ultimately show ?thesis
          using False Some by (auto simp: ahead_def afterPosition_def)
      qed
    qed
    have "filter (\<lambda>e. \<not> ahead i rng (Some (ik, pk)) e) (filter (\<lambda>(pk', r). pk' \<noteq> pk) (records s))
        = filter (\<lambda>e. \<not> ahead i rng pos e) (records s)"
      unfolding filter_filter by (rule filter_cong) (use same in auto)
    then show ?thesis
      unfolding step IH by (simp add: rec' deleteRange_def)
  qed
qed

subsection \<open>Primary keys stay distinct and the key generator stays positive\<close>

lemma distinct_keys_deleteRange:
  "distinct (map fst (records s)) \<Longrightarrow> distinct (map fst (records (deleteRange s rng)))"
  by (simp add: deleteRange_def distinct_map_filter)

lemma distinct_keys_put:
  assumes "distinct (map fst (records s))" and "put s r = Inr (OnSuccess (s', k))"
  shows "distinct (map fst (records s'))"
proof -
  have "distinct (map fst (filter (\<lambda>(pk, r'). pk \<noteq> k') xs @ [(k', r')]))"
    if "distinct (map fst xs)" for xs :: "(key \<times> idb_record) list" and k' r'
    using that by (induction xs) auto
  with assms show ?thesis
    by (auto simp: put_def storeRecord_def bumpGenerator_def
        split: option.splits val.splits if_splits key.splits)
qed

lemma distinct_keys_deleteWalk:
  "distinct (map fst (records s)) \<Longrightarrow> distinct (map fst (records (deleteWalk s i rng pos)))"
  by (simp only: deleteWalk_records) (simp add: distinct_map_filter)

lemma generator_positive_put:
  assumes "1 \<le> keyGenerator s" and "put s r = Inr (OnSuccess (s', k))"
  shows "1 \<le> keyGenerator s'"
  using assms
  by (auto simp: put_def storeRecord_def bumpGenerator_def
      split: option.splits val.splits if_splits key.splits)

lemma createdStore_well_formed:
  "distinct (map fst (records (createdStore declared))) \<and> 1 \<le> keyGenerator (createdStore declared) \<and>
   keyPath (createdStore declared) = ''id'' \<and> autoIncrement (createdStore declared)"
  by (simp add: createdStore_def)

subsection \<open>What select reads from\<close>

lemma cursorWalk_all:
  "\<not> truthyCount cnt \<Longrightarrow> cursorWalk cnt xs step vs = vs @ xs"
  by (induction xs arbitrary: step vs) (simp_all add: isNeedStep_def)

lemma cursorWalk_take:
  "0 \<le> step \<Longrightarrow> step \<le> k \<Longrightarrow> 0 < k \<Longrightarrow>
   cursorWalk (Some k) xs step vs = vs @ take (nat (k - step)) xs"
proof (induction xs arbitrary: step vs)
  case Nil
  then show ?case by simp
next
  case (Cons x xs)
  show ?case
  proof (cases "step = k")
    case True
    with Cons.prems show ?thesis
      by (simp add: isNeedStep_def truthyCount_def)
  next
    case False
    with Cons.prems have need: "isNeedStep (Some k) step"
      by (simp add: isNeedStep_def truthyCount_def)
    have "nat (k - step) = Suc (nat (k - (step + 1)))"
      using Cons.prems False by simp
    with need Cons.IH[of "step + 1" "vs @ [x]"] Cons.prems False show ?thesis
      by simp
  qed
qed

lemma select_from_store:
  assumes "getStorage c = Inr (n, s)"
    and "key p = Some ''id'' \<or> truthyCount (count p) \<or> orderBy p \<noteq> None"
    and "orderBy p \<noteq> Some Desc"
    and "count p = None \<or> count p = Some 0"
  shows "select c (Some p) = (clearStorageName c, Inr (inRange (value_sp p) (Store s)))"
  using assms
  by (auto simp: select_def Let_def getAll_def promisifyRequest_def truthyCount_def)

lemma select_from_store_count:
  assumes "getStorage c = Inr (n, s)"
    and "orderBy p \<noteq> Some Desc" and "count p = Some k" and "0 < k" and "k \<le> 4294967295"
  shows "select c (Some p) = (clearStorageName c, Inr (take (nat k) (inRange (value_sp p) (Store s))))"
  using assms
  by (auto simp: select_def Let_def getAll_def promisifyRequest_def truthyCount_def)

lemma select_desc_from_store:
  assumes "getStorage c = Inr (n, s)" and "orderBy p = Some Desc"
  shows "select c (Some p) =
     (clearStorageName c,
      Inr (case count p of
             None \<Rightarrow> rev (inRange (value_sp p) (Store s))
           | Some k \<Rightarrow> if 0 < k then take (nat k) (rev (inRange (value_sp p) (Store s)))
                       else rev (inRange (value_sp p) (Store s))))"
proof (cases "count p")
  case None
  then show ?thesis
    using assms by (simp add: select_def Let_def openCursor_def cursorWalk_all truthyCount_def)
next
  case (Some k)
  show ?thesis
  proof (cases "0 < k")
    case True
    then show ?thesis
      using assms Some cursorWalk_take[of 0 k "rev (inRange (value_sp p) (Store s))" "[]"]
      by (simp add: select_def Let_def openCursor_def truthyCount_def)
  next
    case False
    have walk: "cursorWalk (Some k) xs step vs = vs @ xs" if "0 \<le> step" for xs step vs
      using that False
      by (induction xs arbitrary: step vs) (simp_all add: isNeedStep_def truthyCount_def)
    show ?thesis
      using assms Some False by (simp add: select_def Let_def openCursor_def truthyCount_def walk)
  qed
qed

lemma select_bare_descriptor:
  assumes "getStorage c = Inr (n, s)"
    and "key p = None" and "orderBy p = None" and "count p = None \<or> count p = Some 0"
  shows "select c (Some p) =
     (case index s [] of
        Inl e \<Rightarrow> (c, Inl e)
      | Inr i \<Rightarrow> (clearStorageName c, Inr (inRange (value_sp p) (Index s i))))"
  using assms
  by (auto simp: select_def Let_def getAll_def promisifyRequest_def truthyCount_def split: sum.splits)

lemma select_from_index_only_bare:
  assumes "getStorage c = Inr (n, s)" and "map_of (indexes s) iname = Some i"
    and "iname \<noteq> ''id''" and "key p = Some iname" and "orderBy p = None"
    and "count p = None \<or> count p = Some 0"
  shows "select c (Some p) = (clearStorageName c, Inr (inRange (value_sp p) (Index s i)))"
  using assms
  by (auto simp: select_def Let_def getAll_def promisifyRequest_def truthyCount_def index_def)

lemma select_id_desc_is_rev:
  assumes "getStorage c = Inr (n, s)"
  shows "select c (Some \<lparr>key = Some ''id'', value_sp = v, count = None, orderBy = Some Desc\<rparr>) =
           (clearStorageName c, Inr (rev (inRange v (Store s)))) \<and>
         select c (Some \<lparr>key = Some ''id'', value_sp = v, count = None, orderBy = None\<rparr>) =
           (clearStorageName c, Inr (inRange v (Store s)))"
  using select_desc_from_store[OF assms, of "\<lparr>key = Some ''id'', value_sp = v, count = None, orderBy = Some Desc\<rparr>"]
        select_from_store[OF assms, of "\<lparr>key = Some ''id'', value_sp = v, count = None, orderBy = None\<rparr>"]
  by simp

lemma select_id_count_is_take:
  assumes "getStorage c = Inr (n, s)" and "0 < k" and "k \<le> 4294967295"
  shows "select c (Some \<lparr>key = Some ''id'', value_sp = v, count = Some k, orderBy = None\<rparr>) =
           (clearStorageName c, Inr (take (nat k) (inRange v (Store s)))) \<and>
         select c (Some \<lparr>key = Some ''id'', value_sp = v, count = Some k, orderBy = Some Desc\<rparr>) =
           (clearStorageName c, Inr (take (nat k) (rev (inRange v (Store s)))))"
  using select_from_store_count[OF assms(1), of "\<lparr>key = Some ''id'', value_sp = v, count = Some k, orderBy = None\<rparr>" k]
        select_desc_from_store[OF assms(1), of "\<lparr>key = Some ''id'', value_sp = v, count = Some k, orderBy = Some Desc\<rparr>"]
        assms(2,3)
  by simp

lemma inRange_store_sorted:
  "sorted (map fst (filter (\<lambda>(k, r). rangeIncludes (toRange q) k) (sourceEntries (Store s))))"
  by (simp add: sourceEntries_def storeEntries_def sorted_filter)

subsection \<open>Request failures on the example with a unique index\<close>

lemma insert_duplicate_name:
  "insert_record (from_storage uniqueNames ''tasks'') (taskData ''A'') = (uniqueNames, Inl ConstraintError)"
  by (simp add: insert_record_def getStorage_def from_storage_def uniqueNames_def put_def taskData_def
      storeRecord_def uniqueViolation_def extractKey_def storedTask_def carryOut_def promisifyRequest_def
      clearStorageName_def Let_def)

lemma update_duplicate_name:
  "update (from_storage uniqueNames ''tasks'') (taskData ''A'') = (uniqueNames, Inr ())"
  by (simp add: update_def getStorage_def from_storage_def uniqueNames_def put_def taskData_def
      storeRecord_def uniqueViolation_def extractKey_def storedTask_def carryOut_def 
      clearStorageName_def Let_def)

subsection \<open>Where the selection is cleared\<close>

text \<open>
  The paths on which the code does clear the selection: every resolution of the four
  operations, the error event of the request of \<^verbatim>\<open>insert\<close>, and either event of any
  request that goes through the request bridge with the hooks \<^verbatim>\<open>select\<close> and \<^verbatim>\<open>insert\<close>
  give it.
\<close>

lemma cleared_on_request_paths:
  "(\<forall>c' ys. select c p = (c', Inr ys) \<longrightarrow> storageName c' = None) \<and>
   (\<forall>c' k. insert_record c element = (c', Inr k) \<longrightarrow> storageName c' = None) \<and>
   (\<forall>c'. insert_record c element = (c', Inl ConstraintError) \<longrightarrow> storageName c' = None) \<and>
   (\<forall>c' u. update c element = (c', Inr u) \<longrightarrow> storageName c' = None) \<and>
   (\<forall>c' u. delete c q = (c', Inr u) \<longrightarrow> storageName c' = None) \<and>
   (\<forall>request dv truthy.
      storageName (fst (promisifyRequest c (request :: 'a request)
        \<lparr>defaultValue = dv, onSuccess = Some clearStorageName, onError = Some clearStorageName\<rparr>
        truthy)) = None)"
proof (intro conjI allI impI)
  fix c' ys
  assume "select c p = (c', Inr ys)"
  then show "storageName c' = None"
    by (auto simp: select_def Let_def clearStorageName_def dest: promisify_clears
        split: sum.splits if_splits prod.splits)
next
  fix c' k
  assume "insert_record c element = (c', Inr k)"
  then show "storageName c' = None"
    by (auto simp: insert_record_def Let_def dest: promisify_clears split: sum.splits prod.splits)
next
  fix c'
  assume "insert_record c element = (c', Inl ConstraintError)"
  then show "storageName c' = None"
    by (auto simp: insert_record_def Let_def dest: promisify_clears getStorage_throws put_throws
        split: sum.splits prod.splits)
next
  fix c' u
  assume "update c element = (c', Inr u)"
  then show "storageName c' = None"
    by (auto simp: update_def clearStorageName_def split: sum.splits prod.splits)
next
  fix c' u
  assume "delete c q = (c', Inr u)"
  then show "storageName c' = None"
    by (auto simp: delete_def clearStorageName_def split: sum.splits prod.splits if_splits)
next
  fix request :: "'a request" and dv truthy
  show "storageName (fst (promisifyRequest c request
        \<lparr>defaultValue = dv, onSuccess = Some clearStorageName, onError = Some clearStorageName\<rparr>
        truthy)) = None"
    using promisify_clears[of c request dv truthy] by (metis prod.collapse)
qed

lemma cleared_on_request_paths_example:
  "storageName (fst (select (from_storage threeTasks ''tasks'') None)) = None \<and>
   storageName (fst (insert_record (from_storage exampleClient ''tasks'') (taskData ''A''))) = None \<and>
   insert_record (from_storage uniqueNames ''tasks'') (taskData ''A'') = (uniqueNames, Inl ConstraintError) \<and>
   storageName uniqueNames = None \<and>
   storageName (fst (update (from_storage uniqueNames ''tasks'') (taskData ''A''))) = None \<and>
   storageName (fst (delete (from_storage threeTasks ''tasks'')
      \<lparr>key = Some ''id'', value_sp = Some (Scalar (KNum 2)), count = None, orderBy = None\<rparr>)) = None"
proof -
  note inst = cleared_on_request_paths[of "from_storage threeTasks ''tasks''" None
      "taskData ''A''" "\<lparr>key = Some ''id'', value_sp = Some (Scalar (KNum 2)), count = None, orderBy = None\<rparr>"]
  have 1: "storageName (fst (select (from_storage threeTasks ''tasks'') None)) = None"
    using inst select_all_threeTasks by auto
  have "\<exists>c' u. delete (from_storage threeTasks ''tasks'')
      \<lparr>key = Some ''id'', value_sp = Some (Scalar (KNum 2)), count = None, orderBy = None\<rparr> = (c', Inr u)"
    unfolding threeTasks_eq delete_def getStorage_tasksClient
    by (simp add: truthyName_def truthyQuery_def truthyKey_def)
  then have 2: "storageName (fst (delete (from_storage threeTasks ''tasks'')
      \<lparr>key = Some ''id'', value_sp = Some (Scalar (KNum 2)), count = None, orderBy = None\<rparr>)) = None"
    using inst by auto
  have "insert_record (from_storage exampleClient ''tasks'') (taskData ''A'') =
      (tasksClient 2 [(KNum 1, storedTask ''A'' 1)], Inr (KNum 1))"
    by (simp add: exampleClient_eq insert_tasksClient)
  then have 3: "storageName (fst (insert_record (from_storage exampleClient ''tasks'') (taskData ''A''))) = None"
    using cleared_on_request_paths[of "from_storage exampleClient ''tasks''" None "taskData ''A''"]
    by auto
  show ?thesis
    using 1 2 3 insert_duplicate_name update_duplicate_name by (simp add: uniqueNames_def)
qed

section \<open>The claims\<close>

text \<open>
  C1.  The code at an operation that throws before it has issued its request.  On a
  client that was never initialised, \<^verbatim>\<open>from('tasks').select()\<close> fails with
  \<^verbatim>\<open>DB is not init\<close>, and on the initialised example
  \<^verbatim>\<open>from('tasks').delete({key: 'tasksName'})\<close> fails inside \<^verbatim>\<open>IDBKeyRange.only\<close>; both times
  \<^verbatim>\<open>tasks\<close> stays selected.  The stale selection is then used: a \<^verbatim>\<open>select()\<close> with no
  \<^verbatim>\<open>from\<close> before it, issued after the failed delete, reads the storage \<^verbatim>\<open>tasks\<close>.
\<close>

theorem selection_survives_throw:
  "select (from_storage (IndexedDbClient (Some indexedDbConfig)) ''tasks'') None =
     (from_storage (IndexedDbClient (Some indexedDbConfig)) ''tasks'', Inl DbNotInit) \<and>
   storageName (from_storage (IndexedDbClient (Some indexedDbConfig)) ''tasks'') = Some ''tasks'' \<and>
   delete (from_storage threeTasks ''tasks'')
     \<lparr>key = Some ''tasksName'', value_sp = None, count = None, orderBy = None\<rparr> =
     (from_storage threeTasks ''tasks'', Inl DataError) \<and>
   storageName (from_storage threeTasks ''tasks'') = Some ''tasks'' \<and>
   select (fst (delete (from_storage threeTasks ''tasks'')
       \<lparr>key = Some ''tasksName'', value_sp = None, count = None, orderBy = None\<rparr>)) None =
     (threeTasks, Inr [storedTask ''A'' 1, storedTask ''B'' 2, storedTask ''A'' 3])"
proof -
  have thrown: "delete (from_storage threeTasks ''tasks'')
     \<lparr>key = Some ''tasksName'', value_sp = None, count = None, orderBy = None\<rparr> =
     (from_storage threeTasks ''tasks'', Inl DataError)"
    unfolding threeTasks_eq delete_def getStorage_tasksClient
    by (simp add: truthyName_def index_def tasksIndexes_def tasksStore_def IDBKeyRange_only_def)
  have "select (from_storage (IndexedDbClient (Some indexedDbConfig)) ''tasks'') None =
     (from_storage (IndexedDbClient (Some indexedDbConfig)) ''tasks'', Inl DbNotInit)"
    by (simp add: select_def getStorage_def from_storage_def IndexedDbClient_def Let_def)
  with thrown select_all_threeTasks show ?thesis
    by (simp add: from_storage_def)
qed

text \<open>
  C2.  The code at a descriptor that omits \<^verbatim>\<open>key\<close> and asks for neither a count nor an
  order: \<^verbatim>\<open>from('tasks').select({value: 2})\<close> and \<^verbatim>\<open>from('tasks').select({})\<close> on the example
  with its three records.  Both ask the storage for the index named by the empty string
  and fail with \<^verbatim>\<open>NotFoundError\<close>, although a record with primary key 2 exists.
\<close>

theorem select_without_key_asks_for_index:
  "select (from_storage threeTasks ''tasks'')
     (Some \<lparr>key = None, value_sp = Some (Scalar (KNum 2)), count = None, orderBy = None\<rparr>) =
     (from_storage threeTasks ''tasks'', Inl NotFoundError) \<and>
   select (from_storage threeTasks ''tasks'')
     (Some \<lparr>key = None, value_sp = None, count = None, orderBy = None\<rparr>) =
     (from_storage threeTasks ''tasks'', Inl NotFoundError) \<and>
   select (from_storage threeTasks ''tasks'')
     (Some \<lparr>key = Some ''id'', value_sp = Some (Scalar (KNum 2)), count = None, orderBy = None\<rparr>) =
     (threeTasks, Inr [storedTask ''B'' 2])"
  unfolding threeTasks_eq select_def getStorage_tasksClient
  by (simp add: Let_def index_def tasksIndexes_def truthyCount_def tasksStore_def getAll_def inRange_def
      sourceEntries_def storeEntries_def toRange_def rangeIncludes_def only_def promisifyRequest_def
      clear_from_tasksClient)

text \<open>
  C3.  Take a storage as \<^verbatim>\<open>createStorage\<close> makes it (keyed by \<^verbatim>\<open>id\<close>, with a running key
  generator) and a record without an \<^verbatim>\<open>id\<close> field, so that the engine generates the key.
  If \<^verbatim>\<open>from(n).insert(r)\<close> resolves with the key \<open>k\<close>, then \<^verbatim>\<open>from(n).select({key: 'id',
  value: k})\<close> resolves with exactly one record, \<open>r\<close> with its \<^verbatim>\<open>id\<close> set to \<open>k\<close>.
\<close>

theorem insert_select_roundtrip:
  assumes "db c = Some d" and "objectStores d n = Some s"
    and "keyPath s = ''id''" and "autoIncrement s" and "1 \<le> keyGenerator s"
    and "element ''id'' = None"
    and "insert_record (from_storage c n) element = (c', Inr k)"
  shows "select (from_storage c' n)
           (Some \<lparr>key = Some ''id'', value_sp = Some (Scalar k), count = None, orderBy = None\<rparr>)
         = (c', Inr [element(''id'' \<mapsto> VKey k)])"
proof -
  from assms(7) have sel: "n \<noteq> []" "\<not> upgrading d"
    using assms(1,2) by (auto simp: insert_record_def getStorage_def from_storage_def split: if_splits)
  let ?k = "KNum (keyGenerator s)"
  let ?r = "element(''id'' \<mapsto> VKey ?k)"
  let ?s' = "s\<lparr>keyGenerator := keyGenerator s + 1,
                records := filter (\<lambda>(pk, r'). pk \<noteq> ?k) (records s) @ [(?k, ?r)]\<rparr>"
  have gs: "getStorage (from_storage c n) = Inr (n, s)"
    using assms(1,2) sel by (simp add: getStorage_def from_storage_def)
  from assms(7) have nv: "\<not> uniqueViolation (s\<lparr>keyGenerator := keyGenerator s + 1\<rparr>) ?k ?r"
    and le: "keyGenerator s \<le> 9007199254740992"
    using gs assms(3-6)
    by (auto simp: insert_record_def put_def storeRecord_def carryOut_def promisifyRequest_def Let_def
        split: if_splits)
  have ins: "insert_record (from_storage c n) element =
      (c\<lparr>db := Some (d\<lparr>objectStores := (objectStores d)(n \<mapsto> ?s')\<rparr>), storageName := None\<rparr>, Inr ?k)"
    using gs assms(1,3-6) nv le
    by (simp add: insert_record_def put_def storeRecord_def carryOut_def promisifyRequest_def Let_def
        writeStore_def clearStorageName_def from_storage_def truthyKey_def)
  from assms(7)[unfolded ins]
  have c': "c' = c\<lparr>db := Some (d\<lparr>objectStores := (objectStores d)(n \<mapsto> ?s')\<rparr>), storageName := None\<rparr>"
    and k: "k = ?k"
    by auto
  have gs': "getStorage (from_storage c' n) = Inr (n, ?s')"
    using sel by (simp add: c' getStorage_def from_storage_def)
  have "inRange (Some (Scalar ?k)) (Store ?s') = [?r]"
    by (simp add: inRange_def sourceEntries_def storeEntries_def toRange_def sort_key_filter_single)
  then show ?thesis
    using gs' unfolding k
    by (simp add: select_def Let_def getAll_def promisifyRequest_def clearStorageName_def
        from_storage_def c')
qed

theorem insert_select_roundtrip_witness:
  "insert_record (from_storage threeTasks ''tasks'') (taskData ''C'') =
     (insertTask threeTasks ''C'', Inr (KNum 4)) \<and>
   select (from_storage (insertTask threeTasks ''C'') ''tasks'')
     (Some \<lparr>key = Some ''id'', value_sp = Some (Scalar (KNum 4)), count = None, orderBy = None\<rparr>) =
     (insertTask threeTasks ''C'', Inr [(taskData ''C'')(''id'' \<mapsto> VKey (KNum 4))])"
proof -
  have ins: "insert_record (from_storage threeTasks ''tasks'') (taskData ''C'') =
     (insertTask threeTasks ''C'', Inr (KNum 4))"
    by (simp add: insertTask_def threeTasks_eq insert_tasksClient)
  have "select (from_storage (insertTask threeTasks ''C'') ''tasks'')
     (Some \<lparr>key = Some ''id'', value_sp = Some (Scalar (KNum 4)), count = None, orderBy = None\<rparr>) =
     (insertTask threeTasks ''C'', Inr [(taskData ''C'')(''id'' \<mapsto> VKey (KNum 4))])"
    using insert_select_roundtrip[of threeTasks
        "tasksDatabase 4 [(KNum 1, storedTask ''A'' 1), (KNum 2, storedTask ''B'' 2), (KNum 3, storedTask ''A'' 3)]"
        "''tasks''"
        "tasksStore 4 [(KNum 1, storedTask ''A'' 1), (KNum 2, storedTask ''B'' 2), (KNum 3, storedTask ''A'' 3)]"
        "taskData ''C''" "insertTask threeTasks ''C''" "KNum 4"] ins
    by (simp add: threeTasks_eq tasksClient_def tasksDatabase_def tasksStore_def taskData_def)
  with ins show ?thesis by simp
qed

text \<open>
  C4.  Let a storage with distinct primary keys be selected on an open connection, and
  let \<^verbatim>\<open>key\<close> name one of its indexes, unique or not (a name other than \<^verbatim>\<open>"id"\<close> and the
  empty string, which address the primary keys).  Then \<^verbatim>\<open>delete({key, value: v})\<close>
  resolves, clears the selection, and leaves the storage with exactly the records whose
  indexed field is not \<open>v\<close>, each unchanged and in place; nothing else of the database
  changes.
\<close>

theorem delete_by_index:
  assumes "db c = Some d" and "\<not> upgrading d" and "storageName c = Some n" and "n \<noteq> []"
    and "objectStores d n = Some s"
    and "map_of (indexes s) iname = Some idx" and "iname \<noteq> []" and "iname \<noteq> ''id''"
    and "distinct (map fst (records s))"
  shows "delete c \<lparr>key = Some iname, value_sp = Some (Scalar v), count = cnt, orderBy = ord\<rparr> =
     (c\<lparr>db := Some (d\<lparr>objectStores := (objectStores d)(n \<mapsto>
            s\<lparr>records := filter (\<lambda>(pk, r). r (index_keyPath idx) \<noteq> Some (VKey v)) (records s)\<rparr>)\<rparr>),
         storageName := None\<rparr>, Inr ())"
proof -
  have "(\<lambda>e. \<not> ahead idx (only v) None e) = (\<lambda>(pk, r). r (index_keyPath idx) \<noteq> Some (VKey v))"
    by (auto simp: ahead_def afterPosition_def extractKey_def fun_eq_iff split: option.splits val.splits)
  then have "deleteWalk s idx (only v) None =
      s\<lparr>records := filter (\<lambda>(pk, r). r (index_keyPath idx) \<noteq> Some (VKey v)) (records s)\<rparr>"
    using deleteWalk_records[OF assms(9), of idx "only v" None] by simp
  then show ?thesis
    using assms(1-8)
    by (simp add: delete_def getStorage_def truthyName_def index_def IDBKeyRange_only_def
        writeStore_def clearStorageName_def)
qed

theorem delete_by_index_witness:
  "delete (from_storage threeTasks ''tasks'')
     \<lparr>key = Some ''tasksName'', value_sp = Some (Scalar (KStr ''A'')), count = None, orderBy = None\<rparr> =
     (tasksClient 4 [(KNum 2, storedTask ''B'' 2)], Inr ()) \<and>
   select (from_storage (tasksClient 4 [(KNum 2, storedTask ''B'' 2)]) ''tasks'') None =
     (tasksClient 4 [(KNum 2, storedTask ''B'' 2)], Inr [storedTask ''B'' 2])"
proof -
  have "delete (from_storage threeTasks ''tasks'')
     \<lparr>key = Some ''tasksName'', value_sp = Some (Scalar (KStr ''A'')), count = None, orderBy = None\<rparr> =
     (tasksClient 4 [(KNum 2, storedTask ''B'' 2)], Inr ())"
    using delete_by_index[of "from_storage threeTasks ''tasks''" _ "''tasks''" _ "''tasksName''"
        "\<lparr>index_keyPath = ''name'', index_unique = False\<rparr>" "KStr ''A''" None None]
    by (simp add: threeTasks_eq tasksClient_def tasksDatabase_def tasksStore_def from_storage_def
        tasksIndexes_def storedTask_def taskData_def)
  moreover have "select (from_storage (tasksClient 4 [(KNum 2, storedTask ''B'' 2)]) ''tasks'') None =
     (tasksClient 4 [(KNum 2, storedTask ''B'' 2)], Inr [storedTask ''B'' 2])"
    unfolding select_def getStorage_tasksClient
    by (simp add: Let_def getAll_def inRange_def sourceEntries_def storeEntries_def toRange_def
        unbounded_def rangeIncludes_def promisifyRequest_def clear_from_tasksClient tasksStore_def)
  ultimately show ?thesis by simp
qed

text \<open>
  C5.  The code at a descriptor that names an index and a count:
  \<^verbatim>\<open>from('tasks').select({key: 'tasksName', value: 'A', count: 1})\<close> on the example.  The
  count sends the read to the object store, where \<^verbatim>\<open>'A'\<close> is taken for a primary key: the
  result is empty, while the same select without the count finds the records 1 and 3.
\<close>

theorem select_index_count_reads_store:
  "select (from_storage threeTasks ''tasks'')
     (Some \<lparr>key = Some ''tasksName'', value_sp = Some (Scalar (KStr ''A'')), count = Some 1, orderBy = None\<rparr>) =
     (threeTasks, Inr []) \<and>
   select (from_storage threeTasks ''tasks'')
     (Some \<lparr>key = Some ''tasksName'', value_sp = Some (Scalar (KStr ''A'')), count = None, orderBy = None\<rparr>) =
     (threeTasks, Inr [storedTask ''A'' 1, storedTask ''A'' 3])"
proof -
  have "select (from_storage threeTasks ''tasks'')
     (Some \<lparr>key = Some ''tasksName'', value_sp = Some (Scalar (KStr ''A'')), count = Some 1, orderBy = None\<rparr>) =
     (threeTasks, Inr [])"
    unfolding threeTasks_eq select_def getStorage_tasksClient
    by (simp add: Let_def getAll_def inRange_def sourceEntries_def storeEntries_def toRange_def
        rangeIncludes_def promisifyRequest_def clear_from_tasksClient truthyCount_def only_def
        tasksStore_def)
  with select_name_A_threeTasks show ?thesis by simp
qed

text \<open>
  C6.  The code at a descriptor that names an index and the descending order:
  \<^verbatim>\<open>from('tasks').select({key: 'tasksName', orderBy: 'desc'})\<close> on the example.  The order
  sends the walk to the object store: the records come by descending primary key (names
  A, B, A), which is neither sorted by name nor the reverse of the ascending select over
  the index (records 1, 3, 2).
\<close>

theorem select_index_desc_reads_store:
  "select (from_storage threeTasks ''tasks'')
     (Some \<lparr>key = Some ''tasksName'', value_sp = None, count = None, orderBy = Some Desc\<rparr>) =
     (threeTasks, Inr [storedTask ''A'' 3, storedTask ''B'' 2, storedTask ''A'' 1]) \<and>
   select (from_storage threeTasks ''tasks'')
     (Some \<lparr>key = Some ''tasksName'', value_sp = None, count = None, orderBy = None\<rparr>) =
     (threeTasks, Inr [storedTask ''A'' 1, storedTask ''A'' 3, storedTask ''B'' 2])"
proof -
  have "select (from_storage threeTasks ''tasks'')
     (Some \<lparr>key = Some ''tasksName'', value_sp = None, count = None, orderBy = Some Desc\<rparr>) =
     (threeTasks, Inr [storedTask ''A'' 3, storedTask ''B'' 2, storedTask ''A'' 1])"
    unfolding threeTasks_eq select_def getStorage_tasksClient
    by (simp add: Let_def openCursor_def inRange_def sourceEntries_def storeEntries_def isNeedStep_def
        toRange_def unbounded_def rangeIncludes_def clear_from_tasksClient truthyCount_def
        tasksStore_def)
  with select_by_name_threeTasks show ?thesis by simp
qed

text \<open>
  C7.  With an open connection and no storage selected, \<^verbatim>\<open>select\<close> and \<^verbatim>\<open>insert\<close> fail
  with the error \<^verbatim>\<open>No storage selected\<close>, and the client, with the database behind its
  connection, is exactly as before.
\<close>

theorem no_storage_selected:
  assumes "db c = Some d" and "storageName c = None"
  shows "select c params = (c, Inl NoStorageSelected) \<and>
         insert_record c element = (c, Inl NoStorageSelected)"
  using assms by (simp add: select_def insert_record_def getStorage_def Let_def)

theorem no_storage_selected_witness:
  "db threeTasks \<noteq> None \<and> storageName threeTasks = None \<and>
   select threeTasks (Some \<lparr>key = Some ''id'', value_sp = Some (Scalar (KNum 1)), count = None, orderBy = None\<rparr>)
     = (threeTasks, Inl NoStorageSelected) \<and>
   insert_record threeTasks (taskData ''C'') = (threeTasks, Inl NoStorageSelected)"
  using no_storage_selected[of threeTasks _
      "Some \<lparr>key = Some ''id'', value_sp = Some (Scalar (KNum 1)), count = None, orderBy = None\<rparr>" "taskData ''C''"]
  by (simp add: threeTasks_eq tasksClient_def tasksDatabase_def)

text \<open>
  C8.  With a configuration present, a delete request whose first event is the blocked
  event makes \<^verbatim>\<open>deleteDb\<close> fail with the blocked-deletion error, whatever the engine fires
  afterwards.  For any events of the request, the client is changed only if a success
  event is among them, and then only in that the initialised flag is false; without a
  success event the flag, like every other field, keeps its value.
\<close>

theorem deleteDb_blocked:
  assumes "config c = Some cfg"
  shows "snd (deleteDb c (DeleteBlocked # events)) = Some (Inl CouldNotDeleteBlocked) \<and>
         fst (deleteDb c events') = (if DeleteSuccess \<in> set events' then c\<lparr>isInited := False\<rparr> else c)"
  using assms
  by (simp add: deleteDb_def settle_def deleteHandlers_settled deleteHandlers_no_success
      deleteHandlers_success)

theorem deleteDb_blocked_witness:
  "deleteDb threeTasks [DeleteBlocked] = (threeTasks, Some (Inl CouldNotDeleteBlocked)) \<and>
   isInited threeTasks \<and>
   deleteDb threeTasks [DeleteBlocked, DeleteSuccess] =
     (threeTasks\<lparr>isInited := False\<rparr>, Some (Inl CouldNotDeleteBlocked))"
  using deleteDb_blocked[of threeTasks indexedDbConfig "[]" "[DeleteBlocked]"]
        deleteDb_blocked[of threeTasks indexedDbConfig "[DeleteSuccess]" "[DeleteBlocked, DeleteSuccess]"]
  by (simp add: threeTasks_eq tasksClient_def prod_eq_iff)

text \<open>
  C9.  Let the declared index names of every configured storage be distinct, and the
  version not 0.  When the engine answers \<^verbatim>\<open>init\<close> with an upgrade on a database \<open>d\<close>,
  the promise resolves, the
  client is initialised, and its database is \<open>d\<close> with just this change: every configured
  storage that \<open>d\<close> lacks is now the store \<open>createdStore\<close> describes (empty, keyed by an
  auto-incrementing \<^verbatim>\<open>id\<close>, with all its declared indexes, unique only where marked).  A
  storage that \<open>d\<close> had is the same store as before, records and indexes included.
\<close>

theorem upgrade_creates_missing_storages:
  assumes "config c = Some cfg" and "dbVersion cfg \<noteq> Some 0"
    and "\<forall>n\<in>set (storageNames cfg). distinct (map index_si (declaredIndexes c n))"
  shows "init c (OpenUpgradeNeeded d) =
     (c\<lparr>db := Some (d\<lparr>objectStores :=
              (\<lambda>n. if n \<in> set (storageNames cfg) \<and> objectStores d n = None
                   then Some (createdStore (declaredIndexes c n)) else objectStores d n),
            upgrading := False\<rparr>),
        isInited := True\<rparr>, Inr ())"
proof -
  let ?c = "c\<lparr>db := Some (d\<lparr>upgrading := True\<rparr>)\<rparr>"
  have decl: "\<And>m. declaredIndexes ?c m = declaredIndexes c m"
    by (simp add: declaredIndexes_def)
  have "createMissing ?c (storageNames cfg) =
     (?c\<lparr>db := Some (d\<lparr>upgrading := True\<rparr>\<lparr>objectStores :=
          (\<lambda>n. if n \<in> set (storageNames cfg) \<and> objectStores (d\<lparr>upgrading := True\<rparr>) n = None
               then Some (createdStore (declaredIndexes ?c n))
               else objectStores (d\<lparr>upgrading := True\<rparr>) n)\<rparr>)\<rparr>, Inr ())"
    using assms(3) by (intro createMissing_all) (simp_all add: decl)
  then show ?thesis
    using assms(1,2) by (simp add: init_def onupgradeneeded_def onsuccess_def decl cong: if_cong)
qed

theorem upgrade_creates_missing_storages_witness:
  "\<exists>d tasks.
     db threeTasks = Some d \<and> objectStores d ''tasks'' = Some tasks \<and> objectStores d ''notes'' = None \<and>
     length (records tasks) = 3 \<and>
     (\<exists>c' d'. init (configure threeTasks notesConfig) (OpenUpgradeNeeded d) = (c', Inr ()) \<and>
        isInited c' \<and> db c' = Some d' \<and>
        objectStores d' ''tasks'' = Some tasks \<and>
        objectStores d' ''notes'' =
          Some \<lparr>keyPath = ''id'', autoIncrement = True, keyGenerator = 1, records = [],
                indexes = [(''notesTitle'', \<lparr>index_keyPath = ''title'', index_unique = True\<rparr>),
                           (''notesTag'', \<lparr>index_keyPath = ''tag'', index_unique = False\<rparr>)]\<rparr>)"
  using upgrade_creates_missing_storages[of "configure threeTasks notesConfig" notesConfig
      "tasksDatabase 4 [(KNum 1, storedTask ''A'' 1), (KNum 2, storedTask ''B'' 2), (KNum 3, storedTask ''A'' 3)]"]
  by (simp add: threeTasks_eq tasksClient_def tasksDatabase_def tasksStore_def notesConfig_def
      declaredIndexes_def createdStore_def configure_def)

text \<open>
  C10.  With a storage selected on an open connection, \<^verbatim>\<open>delete\<close> with \<^verbatim>\<open>key\<close> absent or
  \<^verbatim>\<open>"id"\<close> and a \<^verbatim>\<open>value\<close> that is absent or falsy (zero, the empty string) resolves and
  changes nothing but the selection, which it clears: no record is removed.
\<close>

theorem delete_without_value:
  assumes "db c = Some d" and "\<not> upgrading d" and "storageName c = Some n" and "n \<noteq> []"
    and "objectStores d n = Some s"
    and "key params = None \<or> key params = Some ''id''"
    and "\<not> truthyQuery (value_sp params)"
  shows "delete c params = (c\<lparr>storageName := None\<rparr>, Inr ())"
  using assms by (auto simp: delete_def getStorage_def truthyName_def clearStorageName_def)

theorem delete_without_value_witness:
  "delete (from_storage threeTasks ''tasks'') \<lparr>key = None, value_sp = None, count = None, orderBy = None\<rparr>
     = (threeTasks, Inr ()) \<and>
   delete (from_storage threeTasks ''tasks'')
     \<lparr>key = Some ''id'', value_sp = Some (Scalar (KNum 0)), count = None, orderBy = None\<rparr>
     = (threeTasks, Inr ())"
  using delete_without_value[of "from_storage threeTasks ''tasks''" _ "''tasks''" _
          "\<lparr>key = None, value_sp = None, count = None, orderBy = None\<rparr>"]
        delete_without_value[of "from_storage threeTasks ''tasks''" _ "''tasks''" _
          "\<lparr>key = Some ''id'', value_sp = Some (Scalar (KNum 0)), count = None, orderBy = None\<rparr>"]
  by (simp add: threeTasks_eq tasksClient_def tasksDatabase_def from_storage_def truthyQuery_def
      truthyKey_def)

end
